theory Spec2Isabelle
  imports Complex_Main "HOL-Library.Sublist" "HOL-Library.Log_Nat"
begin

section \<open>Strings\<close>

text \<open>
  A Python \<open>str\<close> is modelled as a \<open>string\<close>, a list of 8-bit characters read as the code
  points 0 to 255 (Latin-1). On these code points the definitions are Python's:
  \<open>str.lower\<close> maps \<open>A-Z\<close> and the capital letters 192 to 222, the multiplication sign 215
  apart, to the code point 32 above and leaves every other character alone; the whitespace
  of \<open>\s\<close> and of \<open>str.strip\<close> is 9-13, 28-32, 133 and 160; \<open>[a-zA-Z]\<close> is the regular
  expression's own class. \<open>str.upper\<close> and \<open>str.capitalize\<close> map the letters \<open>a-z\<close> and
  \<open>A-Z\<close>: the program applies them to tokens matched by \<open>[a-zA-Z]+\<close>.
\<close>

definition is_upper :: "char \<Rightarrow> bool" where
  "is_upper c = (65 \<le> (of_char c :: nat) \<and> (of_char c :: nat) \<le> 90)"

definition is_lower :: "char \<Rightarrow> bool" where
  "is_lower c = (97 \<le> (of_char c :: nat) \<and> (of_char c :: nat) \<le> 122)"

definition is_alpha :: "char \<Rightarrow> bool" where
  "is_alpha c = (is_upper c \<or> is_lower c)"

definition is_space :: "char \<Rightarrow> bool" where
  "is_space c = ((of_char c :: nat) \<in> {9, 10, 11, 12, 13, 28, 29, 30, 31, 32, 133, 160})"

definition lower_char :: "char \<Rightarrow> char" where
  "lower_char c =
     (let n = (of_char c :: nat) in
      if (65 \<le> n \<and> n \<le> 90) \<or> (192 \<le> n \<and> n \<le> 222 \<and> n \<noteq> 215) then char_of (n + 32) else c)"

definition upper_char :: "char \<Rightarrow> char" where
  "upper_char c = (if is_lower c then char_of ((of_char c :: nat) - 32) else c)"

definition lower :: "string \<Rightarrow> string" where
  "lower s = map lower_char s"

definition upper :: "string \<Rightarrow> string" where
  "upper s = map upper_char s"

text \<open>\<open>str.capitalize\<close>: first character upper-cased, the rest lower-cased.\<close>

definition capitalize :: "string \<Rightarrow> string" where
  "capitalize s = (case s of [] \<Rightarrow> [] | c # cs \<Rightarrow> upper_char c # lower cs)"

text \<open>\<open>str.replace(" ", "")\<close>: every space character removed.\<close>

definition remove_spaces :: "string \<Rightarrow> string" where
  "remove_spaces s = filter (\<lambda>c. c \<noteq> CHR '' '') s"

text \<open>
  Python truthiness of an optional string, as tested by \<open>if x:\<close> and \<open>x and y\<close>:
  \<open>None\<close> and the empty string are false.
\<close>

fun truthy :: "string option \<Rightarrow> bool" where
  "truthy None = False"
| "truthy (Some s) = (s \<noteq> [])"


section \<open>Floating-point numbers\<close>

text \<open>
  A Python \<open>float\<close> is an IEEE 754 double. It is modelled by the real number it denotes,
  and an arithmetic operation of the source by the exact operation followed by \<open>rnd\<close>, the
  rounding to the nearest double, a tie going to the even mantissa. For a positive \<open>x\<close>,
  \<open>float_exponent x\<close> is the binary exponent \<open>e\<close> with \<open>2 powi e \<le> x < 2 powi (e + 1)\<close>;
  the doubles of that binade are the multiples of \<open>2 powi (e - 52)\<close>. The exponent is not
  bounded, so the model has neither infinities nor subnormal numbers: the numbers of the
  program are similarities between 0 and 1, their products with the weights and with 100,
  and sums and averages of these.
\<close>

text \<open>Round half to even, to an integer.\<close>

definition round_half_even :: "real \<Rightarrow> int" where
  "round_half_even x =
     (let f = \<lfloor>x\<rfloor>; d = x - of_int f in
      if d < 1 / 2 then f else if d > 1 / 2 then f + 1
      else if even f then f else f + 1)"

definition float_exponent :: "real \<Rightarrow> int" where
  "float_exponent x =
     (if 1 \<le> x then bitlen \<lfloor>x\<rfloor> - 1
      else (let k = bitlen \<lfloor>1 / x\<rfloor> - 1 in if x * 2 powi k = 1 then - k else - k - 1))"

definition rnd :: "real \<Rightarrow> real" where
  "rnd x =
     (if x = 0 then 0
      else (let u = 2 powi (float_exponent \<bar>x\<bar> - 52)
            in of_int (round_half_even (x / u)) * u))"

text \<open>The operators \<open>+\<close>, \<open>*\<close> and \<open>/\<close> on floats.\<close>

definition float_add :: "real \<Rightarrow> real \<Rightarrow> real" where
  "float_add a b = rnd (a + b)"

definition float_mul :: "real \<Rightarrow> real \<Rightarrow> real" where
  "float_mul a b = rnd (a * b)"

definition float_div :: "real \<Rightarrow> real \<Rightarrow> real" where
  "float_div a b = rnd (a / b)"

text \<open>
  The built-in \<open>sum\<close> on a list of floats: it starts from the integer 0 and adds the
  elements from left to right, each addition rounded. (This is the \<open>sum\<close> of CPython up to
  3.11; from 3.12 on the built-in also carries a compensation term, which leaves the sum of
  one or two numbers as it is here.)
\<close>

definition float_sum :: "real list \<Rightarrow> real" where
  "float_sum xs = foldl float_add 0 xs"


section \<open>config.py\<close>

definition MUHAMMAD_VARIANTS :: "string set" where
  "MUHAMMAD_VARIANTS = {''md'', ''mohd'', ''muhd'', ''moham'', ''muhammad'', ''mohammad'',
     ''muhammed'', ''mohammed'', ''mohamad'', ''mohamed''}"

definition STANDARD_MUHAMMAD :: string where
  "STANDARD_MUHAMMAD = ''Muhammad''"

text \<open>The literals \<open>0.85\<close> and \<open>0.15\<close> denote the doubles nearest to them; 100 is a double.\<close>

definition PHONETIC_WEIGHT :: real where
  "PHONETIC_WEIGHT = rnd (85 / 100)"

definition WORD_SIM_WEIGHT :: real where
  "WORD_SIM_WEIGHT = rnd (15 / 100)"

definition SCORE_MULTIPLIER :: real where
  "SCORE_MULTIPLIER = 100"


section \<open>processor.py\<close>

text \<open>\<open>re.sub(r"\s+", " ", text)\<close>: the flag records that the previous character was
  whitespace, so a run of whitespace yields one space.\<close>

fun collapse_ws :: "bool \<Rightarrow> string \<Rightarrow> string" where
  "collapse_ws in_run [] = []"
| "collapse_ws in_run (c # cs) =
     (if is_space c then (if in_run then collapse_ws True cs else CHR '' '' # collapse_ws True cs)
      else c # collapse_ws False cs)"

definition strip :: "string \<Rightarrow> string" where
  "strip s = rev (dropWhile is_space (rev (dropWhile is_space s)))"

definition normalize_text :: "string \<Rightarrow> string" where
  "normalize_text text0 = strip (collapse_ws False (lower text0))"

text \<open>\<open>re.findall(r"[a-zA-Z]+", text)\<close>: the maximal runs of letters, left to right;
  \<open>cur\<close> is the run being read.\<close>

fun scan_alpha :: "string \<Rightarrow> string \<Rightarrow> string list" where
  "scan_alpha cur [] = (if cur = [] then [] else [cur])"
| "scan_alpha cur (c # cs) =
     (if is_alpha c then scan_alpha (cur @ [c]) cs
      else if cur = [] then scan_alpha [] cs
      else cur # scan_alpha [] cs)"

definition extract_alpha_tokens :: "string \<Rightarrow> string list" where
  "extract_alpha_tokens text0 = scan_alpha [] text0"

text \<open>The loop of \<open>remove_duplicates_preserve_order\<close>, its state the pair
  \<open>(seen, result)\<close>.\<close>

definition dedup_step :: "string \<Rightarrow> string set \<times> string list \<Rightarrow> string set \<times> string list" where
  "dedup_step item st =
     (if item \<notin> fst st then (insert item (fst st), snd st @ [item]) else st)"

definition remove_duplicates_preserve_order :: "string list \<Rightarrow> string list" where
  "remove_duplicates_preserve_order items = snd (fold dedup_step items ({}, []))"

definition normalize_muhammad :: "string \<Rightarrow> string option" where
  "normalize_muhammad token =
     (if token \<in> MUHAMMAD_VARIANTS then Some STANDARD_MUHAMMAD else None)"

text \<open>One iteration of the loop of \<open>extract_name_segments\<close> on the list \<open>segments\<close>.\<close>

definition name_segment_step :: "string \<Rightarrow> string list \<Rightarrow> string list" where
  "name_segment_step token segments =
     (let normalized = normalize_muhammad token in
      if truthy normalized then segments @ [the normalized]
      else if length token > 1 then segments @ [capitalize token]
      else segments)"

definition extract_name_segments :: "string list \<Rightarrow> string list" where
  "extract_name_segments tokens =
     remove_duplicates_preserve_order (fold name_segment_step tokens [])"

text \<open>One iteration of the loop of \<open>extract_initials\<close>; the state is
  \<open>(ni_joined, ni_individual, buffer)\<close>.\<close>

definition initials_step ::
  "string \<Rightarrow> string list \<times> string list \<times> string list \<Rightarrow> string list \<times> string list \<times> string list" where
  "initials_step token st =
     (case st of (ni_joined, ni_individual, buffer) \<Rightarrow>
        if length token = 1 then
          (let ch = upper token in (ni_joined, ni_individual @ [ch], buffer @ [ch]))
        else
          ((if length buffer \<ge> 1 then ni_joined @ [concat buffer] else ni_joined),
           ni_individual, []))"

definition extract_initials :: "string list \<Rightarrow> string list \<times> string list" where
  "extract_initials tokens =
     (case fold initials_step tokens ([], [], []) of (ni_joined, ni_individual, buffer) \<Rightarrow>
        (remove_duplicates_preserve_order
           (if length buffer \<ge> 1 then ni_joined @ [concat buffer] else ni_joined),
         remove_duplicates_preserve_order ni_individual))"

text \<open>The dictionary \<open>{"NS": ns, "NI": [ni1, ni2]}\<close>.\<close>

record name_profile =
  NS :: "string list"
  NI :: "string list \<times> string list"

definition process_name :: "string \<Rightarrow> name_profile" where
  "process_name name =
     (let normalized = normalize_text name;
          tokens = extract_alpha_tokens normalized;
          ns = extract_name_segments tokens;
          ni = extract_initials tokens
      in \<lparr>NS = ns, NI = ni\<rparr>)"


section \<open>models.py\<close>

record traced_segment =
  original_text :: string
  index :: nat
  primary_code :: string
  secondary_code :: "string option"

text \<open>
  A \<open>LabeledSegment\<close> object. The solver tells instances apart by Python's \<open>id()\<close>, the
  address of the object, which differs between any two objects alive at the same time;
  the field \<open>ident\<close> carries that number, fixed when the object is constructed. The
  attributes copied from the wrapped segment are read through \<open>segment\<close>.
\<close>

record labeled_segment =
  segment :: traced_segment
  label :: string
  ident :: nat

text \<open>The dictionary built for every scored pair in \<open>match\<close>.\<close>

record candidate =
  t_seg :: labeled_segment
  r_seg :: labeled_segment
  cand_score :: real
  cand_match_type :: string

text \<open>The dictionary appended to \<open>matches\<close> by the solver.\<close>

record match_result =
  target_segment :: labeled_segment
  reference_segment :: labeled_segment
  score :: real
  match_type :: string


section \<open>encoder.py\<close>

text \<open>
  \<open>doublemetaphone\<close> belongs to the \<open>metaphone\<close> library; it is the parameter \<open>dm\<close>,
  returning the pair of the primary and the secondary code.
\<close>

definition encode_one :: "(string \<Rightarrow> string \<times> string) \<Rightarrow> nat \<times> string \<Rightarrow> traced_segment" where
  "encode_one dm it =
     (let dm_codes = dm (snd it);
          primary = fst dm_codes;
          secondary = (if snd dm_codes \<noteq> [] then Some (snd dm_codes) else None)
      in \<lparr>original_text = snd it, index = fst it,
          primary_code = primary, secondary_code = secondary\<rparr>)"

definition encode_segments :: "(string \<Rightarrow> string \<times> string) \<Rightarrow> string list \<Rightarrow> traced_segment list" where
  "encode_segments dm segments = map (encode_one dm) (enumerate 0 segments)"


section \<open>engine.py\<close>

text \<open>
  \<open>JaroWinkler.similarity\<close> belongs to the \<open>rapidfuzz\<close> library; it is the parameter
  \<open>jw\<close>.
\<close>

definition combinations ::
  "traced_segment \<Rightarrow> traced_segment \<Rightarrow> (string option \<times> string option \<times> string) list" where
  "combinations t r =
     [(Some (primary_code t), Some (primary_code r), ''Primary-Primary''),
      (Some (primary_code t), secondary_code r, ''Primary-Secondary''),
      (secondary_code t, Some (primary_code r), ''Secondary-Primary''),
      (secondary_code t, secondary_code r, ''Secondary-Secondary'')]"

text \<open>The body of the loop over the combinations; the state is
  \<open>(best_score, match_label)\<close>.\<close>

definition combination_step ::
  "(string \<Rightarrow> string \<Rightarrow> real) \<Rightarrow> string option \<times> string option \<times> string \<Rightarrow>
   real \<times> string \<Rightarrow> real \<times> string" where
  "combination_step jw comb st =
     (case comb of (c1, c2, lbl) \<Rightarrow>
        if truthy c1 \<and> truthy c2 then
          (let sim = jw (the c1) (the c2) in
           if sim > fst st then (sim, lbl) else st)
        else st)"

definition best_combination ::
  "(string \<Rightarrow> string \<Rightarrow> real) \<Rightarrow> traced_segment \<Rightarrow> traced_segment \<Rightarrow> real \<times> string" where
  "best_combination jw t r = fold (combination_step jw) (combinations t r) (0, ''None'')"

text \<open>
  The text of \<open>f"{x:.4f}"\<close>: the decimal expansion of the double's exact value, rounded
  half to even at the fourth decimal place, with the sign of a negative number. \<open>show_int\<close>
  writes a non-negative integer in decimal.
\<close>

definition digit_char :: "int \<Rightarrow> char" where
  "digit_char d = char_of (48 + d)"

function show_int :: "int \<Rightarrow> string" where
  "show_int n = (if n < 10 then [digit_char n] else show_int (n div 10) @ [digit_char (n mod 10)])"
  by pat_completeness auto
termination
  by (relation "measure nat") auto

declare show_int.simps [simp del]

definition format_4f :: "real \<Rightarrow> string" where
  "format_4f x =
     (let a = \<bar>round_half_even (x * 10000)\<bar> in
      (if x < 0 then [CHR ''-''] else []) @ show_int (a div 10000) @ [CHR ''.''] @
      [digit_char (a div 1000 mod 10), digit_char (a div 100 mod 10),
       digit_char (a div 10 mod 10), digit_char (a mod 10)])"

text \<open>The literal similarity of the perfect-match branch.\<close>

definition word_similarity ::
  "(string \<Rightarrow> string \<Rightarrow> real) \<Rightarrow> traced_segment \<Rightarrow> traced_segment \<Rightarrow>
   string option \<Rightarrow> string option \<Rightarrow> real" where
  "word_similarity jw t r t_full_name r_full_name =
     (if truthy t_full_name \<and> truthy r_full_name then
        (let norm_t = remove_spaces (normalize_text (the t_full_name));
             norm_r = remove_spaces (normalize_text (the r_full_name))
         in jw norm_t norm_r)
      else jw (lower (original_text t)) (lower (original_text r)))"

definition calculate_pair_score ::
  "(string \<Rightarrow> string \<Rightarrow> real) \<Rightarrow> traced_segment \<Rightarrow> traced_segment \<Rightarrow>
   string option \<Rightarrow> string option \<Rightarrow> real \<times> string" where
  "calculate_pair_score jw t r t_full_name r_full_name =
     (case best_combination jw t r of (best_score, match_label) \<Rightarrow>
        if best_score = 1 then
          (let word_sim = word_similarity jw t r t_full_name r_full_name;
               weighted_score = float_add (float_mul best_score PHONETIC_WEIGHT)
                                          (float_mul word_sim WORD_SIM_WEIGHT)
           in (weighted_score,
               match_label @ '' (Weighted: 1.0->'' @ format_4f weighted_score @ '')''))
        else (best_score, match_label))"

text \<open>
  \<open>candidates.sort(key=lambda x: x["score"], reverse=True)\<close>: Python's sort is stable,
  also with \<open>reverse=True\<close>, so candidates of equal score keep their order. \<open>sort_key\<close> is
  the stable insertion sort, here on the negated score.
\<close>

definition sort_candidates :: "candidate list \<Rightarrow> candidate list" where
  "sort_candidates candidates = sort_key (\<lambda>x. - cand_score x) candidates"

record assignment_state =
  taken_target_ids :: "nat set"
  taken_ref_ids :: "nat set"
  matches :: "match_result list"

definition to_match :: "candidate \<Rightarrow> match_result" where
  "to_match cand = \<lparr>target_segment = t_seg cand, reference_segment = r_seg cand,
     score = cand_score cand, match_type = cand_match_type cand\<rparr>"

definition assign_step :: "candidate \<Rightarrow> assignment_state \<Rightarrow> assignment_state" where
  "assign_step cand st =
     (let t_id = ident (t_seg cand); r_id = ident (r_seg cand) in
      if t_id \<notin> taken_target_ids st \<and> r_id \<notin> taken_ref_ids st then
        \<lparr>taken_target_ids = insert t_id (taken_target_ids st),
         taken_ref_ids = insert r_id (taken_ref_ids st),
         matches = matches st @ [to_match cand]\<rparr>
      else st)"

definition solve_greedy_assignment :: "candidate list \<Rightarrow> match_result list" where
  "solve_greedy_assignment candidates =
     matches (fold assign_step (sort_candidates candidates)
       \<lparr>taken_target_ids = {}, taken_ref_ids = {}, matches = []\<rparr>)"


section \<open>matcher.py\<close>

text \<open>
  The units of one name: the encoded name segments labelled \<open>[NS]\<close> followed by the
  encoded joined initials labelled \<open>[NI]\<close>, each wrapped in a fresh object. The objects
  are numbered from \<open>base\<close> in the order they are constructed.
\<close>

definition make_units :: "nat \<Rightarrow> traced_segment list \<Rightarrow> traced_segment list \<Rightarrow> labeled_segment list" where
  "make_units base ns_traced ni_traced =
     map (\<lambda>(i, s, l). \<lparr>segment = s, label = l, ident = i\<rparr>)
       (enumerate base (map (\<lambda>s. (s, ''[NS]'')) ns_traced @ map (\<lambda>s. (s, ''[NI]'')) ni_traced))"

definition pair_candidate ::
  "(string \<Rightarrow> string \<Rightarrow> real) \<Rightarrow> string \<Rightarrow> string \<Rightarrow> labeled_segment \<Rightarrow> labeled_segment \<Rightarrow> candidate list" where
  "pair_candidate jw target_name reference_name t r =
     (case calculate_pair_score jw (segment t) (segment r) (Some target_name) (Some reference_name)
      of (sc, mtype) \<Rightarrow>
        if sc > 0 then [\<lparr>t_seg = t, r_seg = r, cand_score = sc, cand_match_type = mtype\<rparr>]
        else [])"

definition generate_candidates ::
  "(string \<Rightarrow> string \<Rightarrow> real) \<Rightarrow> string \<Rightarrow> string \<Rightarrow> labeled_segment list \<Rightarrow> labeled_segment list \<Rightarrow> candidate list" where
  "generate_candidates jw target_name reference_name t_units r_units =
     concat (map (\<lambda>t. concat (map (pair_candidate jw target_name reference_name t) r_units)) t_units)"

text \<open>
  \<open>round(final_score, 2)\<close>: the exact value of the double is rounded half to even to a
  multiple of 0.01, and the result is the double nearest to that decimal number.
\<close>

definition round2 :: "real \<Rightarrow> real" where
  "round2 x = rnd (of_int (round_half_even (x * 100)) / 100)"

record match_output =
  F1 :: real
  N :: nat
  Target :: string
  Reference :: string
  Matches :: "match_result list"
  AllScores :: "real list"

definition target_units :: "(string \<Rightarrow> string \<times> string) \<Rightarrow> string \<Rightarrow> labeled_segment list" where
  "target_units dm target_name =
     (let t_data = process_name target_name;
          t_ns_traced = encode_segments dm (NS t_data);
          t_ni_traced = encode_segments dm (fst (NI t_data))
      in make_units 0 t_ns_traced t_ni_traced)"

definition reference_units :: "(string \<Rightarrow> string \<times> string) \<Rightarrow> nat \<Rightarrow> string \<Rightarrow> labeled_segment list" where
  "reference_units dm base reference_name =
     (let r_data = process_name reference_name;
          r_ns_traced = encode_segments dm (NS r_data);
          r_ni_traced = encode_segments dm (fst (NI r_data))
      in make_units base r_ns_traced r_ni_traced)"

definition selected_matches ::
  "(string \<Rightarrow> string \<Rightarrow> real) \<Rightarrow> (string \<Rightarrow> string \<times> string) \<Rightarrow> string \<Rightarrow> string \<Rightarrow> match_result list" where
  "selected_matches jw dm target_name reference_name =
     (let t_units = target_units dm target_name;
          r_units = reference_units dm (length t_units) reference_name;
          candidates = generate_candidates jw target_name reference_name t_units r_units
      in solve_greedy_assignment candidates)"

definition match ::
  "(string \<Rightarrow> string \<Rightarrow> real) \<Rightarrow> (string \<Rightarrow> string \<times> string) \<Rightarrow> string \<Rightarrow> string \<Rightarrow> match_output" where
  "match jw dm target_name reference_name =
     (let ms = selected_matches jw dm target_name reference_name;
          n = length (target_units dm target_name);
          scores = map (\<lambda>m. float_mul (score m) SCORE_MULTIPLIER) ms;
          sorted_scores = rev (sort scores);
          top_n_scores = take n sorted_scores;
          final_score = (if n > 0 then float_div (float_sum top_n_scores) (real n) else 0)
      in \<lparr>F1 = round2 final_score, N = n, Target = target_name, Reference = reference_name,
          Matches = ms, AllScores = top_n_scores\<rparr>)"


section \<open>normalizer.py\<close>

definition get_label :: "real \<Rightarrow> string" where
  "get_label sc =
     (if sc \<le> 30 then ''Names Do Not Match''
      else if 30 < sc \<and> sc \<le> 60 then ''Weak Match''
      else if 60 < sc \<and> sc \<le> 75 then ''Slightly Similar''
      else if 75 < sc \<and> sc \<le> 88 then ''Somewhat Similar''
      else if 88 < sc \<and> sc \<le> 94 then ''Highly Similar''
      else if 94 < sc \<and> sc < 100 then ''Almost Identical''
      else if sc = 100 then ''Identical Name''
      else ''Unknown'')"


section \<open>Definitions used to state the properties\<close>

text \<open>What one token contributes to the list of name segments, in the words of the
  specification: the canonical form for an alias, the capitalised token when it has at
  least two characters, nothing otherwise.\<close>

definition ns_entry :: "string \<Rightarrow> string list" where
  "ns_entry t = (if t \<in> MUHAMMAD_VARIANTS then [''Muhammad'']
     else if 2 \<le> length t then [capitalize t] else [])"

text \<open>The maximal runs of consecutive one-character tokens of a token list, in the
  words of the specification.\<close>

definition is_initial :: "string \<Rightarrow> bool" where
  "is_initial t = (length t = 1)"

function initial_runs :: "string list \<Rightarrow> string list list" where
  "initial_runs [] = []"
| "initial_runs (t # ts) =
     (if is_initial t then (t # takeWhile is_initial ts) # initial_runs (dropWhile is_initial ts)
      else initial_runs ts)"
  by pat_completeness auto
termination
  by (relation "measure length") (auto simp: less_Suc_eq_le length_dropWhile_le)

definition join_run :: "string list \<Rightarrow> string" where
  "join_run run = concat (map upper run)"

text \<open>The code combinations the loop of \<open>calculate_pair_score\<close> compares: those that
  pass its guard \<open>if c1 and c2\<close>.\<close>

definition evaluated_combinations ::
  "traced_segment \<Rightarrow> traced_segment \<Rightarrow> (string option \<times> string option \<times> string) list" where
  "evaluated_combinations t r =
     filter (\<lambda>comb. truthy (fst comb) \<and> truthy (fst (snd comb))) (combinations t r)"

text \<open>
  Instances of the two library functions for closed examples. \<open>exact_similarity\<close> is 1 on
  equal strings and 0 otherwise; it agrees with the Jaro-Winkler similarity wherever the
  examples below use it (equal non-empty strings, an empty against a non-empty string, and
  strings with no character in common). \<open>jw_sample\<close> lists the Jaro-Winkler similarities
  of the example \<open>match("Catherine Johnson", "Katherine Johnson")\<close>: 1 for equal strings;
  0.9583333333333334, the double nearest to 23/24, for the two normalised names (15 of the
  16 characters agree in place, and there is no common prefix); 0.5 for a code of one word
  against a code of the other (one common character); and, for the two codes of one word,
  which the scorer only compares with 1, the doubles nearest to 0.85 and to 5/6.
  \<open>dm_sample\<close> lists the Double Metaphone codes of the words of the examples.
\<close>

definition exact_similarity :: "string \<Rightarrow> string \<Rightarrow> real" where
  "exact_similarity a b = (if a = b then 1 else 0)"

definition jw_sample :: "string \<Rightarrow> string \<Rightarrow> real" where
  "jw_sample a b =
     (if a = b then 1
      else if (a = ''catherinejohnson'' \<and> b = ''katherinejohnson'')
            \<or> (a = ''katherinejohnson'' \<and> b = ''catherinejohnson'') then rnd (23 / 24)
      else if (a = ''K0RN'' \<and> b = ''KTRN'') \<or> (a = ''KTRN'' \<and> b = ''K0RN'') then rnd (17 / 20)
      else if (a = ''JNSN'' \<and> b = ''ANSN'') \<or> (a = ''ANSN'' \<and> b = ''JNSN'') then rnd (5 / 6)
      else if ((a = ''K0RN'' \<or> a = ''KTRN'') \<and> (b = ''JNSN'' \<or> b = ''ANSN''))
            \<or> ((a = ''JNSN'' \<or> a = ''ANSN'') \<and> (b = ''K0RN'' \<or> b = ''KTRN'')) then 1 / 2
      else 0)"

definition dm_sample :: "string \<Rightarrow> string \<times> string" where
  "dm_sample s =
     (if s = ''John'' then (''JN'', ''AN'')
      else if s = ''Smith'' then (''SM0'', ''XMT'')
      else if s = ''Rowling'' then (''RLNK'', [])
      else if s = ''JK'' then (''JK'', ''AK'')
      else if s = ''Catherine'' then (''K0RN'', ''KTRN'')
      else if s = ''Katherine'' then (''K0RN'', ''KTRN'')
      else if s = ''Johnson'' then (''JNSN'', ''ANSN'')
      else ([], []))"

definition sample_segment :: "string \<Rightarrow> string \<Rightarrow> traced_segment" where
  "sample_segment txt code =
     \<lparr>original_text = txt, index = 0, primary_code = code, secondary_code = None\<rparr>"

definition sample_unit :: "nat \<Rightarrow> string \<Rightarrow> string \<Rightarrow> labeled_segment" where
  "sample_unit i txt code = \<lparr>segment = sample_segment txt code, label = ''[NS]'', ident = i\<rparr>"

definition sample_candidate :: "nat \<Rightarrow> nat \<Rightarrow> real \<Rightarrow> candidate" where
  "sample_candidate i j sc =
     \<lparr>t_seg = sample_unit i ''Ann'' ''AN'', r_seg = sample_unit j ''Ann'' ''AN'',
      cand_score = sc, cand_match_type = ''Primary-Primary''\<rparr>"


definition nearest_int :: "real \<Rightarrow> int \<Rightarrow> bool" where
  "nearest_int x k \<longleftrightarrow>
     \<bar>x - of_int k\<bar> \<le> 1 / 2 \<and> (\<bar>x - of_int k\<bar> = 1 / 2 \<longrightarrow> even k)"

text \<open>What \<open>extract_initials\<close> does with the loop state after the loop: the pending buffer
  is flushed.\<close>

definition finish_initials :: "string list \<times> string list \<times> string list \<Rightarrow> string list \<times> string list" where
  "finish_initials st = (case st of (nj, ni, buf) \<Rightarrow>
     ((if length buf \<ge> 1 then nj @ [concat buf] else nj), ni))"


text \<open>The identities of the two sides of a chosen pairing, and the invariant of the
  solver's loop: the two sets hold exactly the identities of the pairings chosen so far, and
  no identity occurs twice among them.\<close>

definition tid :: "match_result \<Rightarrow> nat" where
  "tid m = ident (target_segment m)"

definition rid :: "match_result \<Rightarrow> nat" where
  "rid m = ident (reference_segment m)"


definition assign_inv :: "assignment_state \<Rightarrow> bool" where
  "assign_inv st = (taken_target_ids st = set (map tid (matches st))
     \<and> taken_ref_ids st = set (map rid (matches st))
     \<and> distinct (map tid (matches st)) \<and> distinct (map rid (matches st)))"


section \<open>Verification\<close>

text \<open>
  Rounding to an integer gives the nearest integer, ties to the even one, and it is
  monotone and odd. \<open>float_exponent\<close> is the binary exponent. \<open>rnd x\<close> is a multiple of the
  unit in the last place of the binade of \<open>x\<close>, the nearest one, with a mantissa of at most
  53 bits; it is monotone and odd.
\<close>

lemma round_half_even_nearest: "nearest_int x (round_half_even x)"
  unfolding nearest_int_def round_half_even_def Let_def
  by (auto simp: abs_if) linarith+

lemma nearest_int_unique:
  assumes "nearest_int x k"
  shows "k = round_half_even x"
proof -
  have f: "of_int \<lfloor>x\<rfloor> \<le> x" "x < of_int \<lfloor>x\<rfloor> + 1"
    by linarith+
  have "k = \<lfloor>x\<rfloor> \<or> k = \<lfloor>x\<rfloor> + 1"
    using assms f unfolding nearest_int_def by (auto simp: abs_if split: if_splits) linarith+
  then show ?thesis
    using assms f unfolding nearest_int_def round_half_even_def Let_def
    by (auto simp: abs_if split: if_splits)
qed

lemma round_half_even_of_int: "round_half_even (of_int k) = k"
  by (simp add: round_half_even_def)

lemma round_half_even_mono:
  assumes "x \<le> y"
  shows "round_half_even x \<le> round_half_even y"
proof (cases "\<lfloor>x\<rfloor> = \<lfloor>y\<rfloor>")
  case True
  then show ?thesis
    using assms unfolding round_half_even_def Let_def by auto
next
  case False
  then have "\<lfloor>x\<rfloor> + 1 \<le> \<lfloor>y\<rfloor>"
    using floor_mono[OF assms] by linarith
  moreover have "round_half_even x \<le> \<lfloor>x\<rfloor> + 1"
    by (simp add: round_half_even_def Let_def)
  moreover have "\<lfloor>y\<rfloor> \<le> round_half_even y"
    by (simp add: round_half_even_def Let_def)
  ultimately show ?thesis
    by linarith
qed

lemma round_half_even_minus: "round_half_even (- x) = - round_half_even x"
proof -
  have "\<bar>- x - of_int (- round_half_even x)\<bar> = \<bar>x - of_int (round_half_even x)\<bar>"
    by simp
  then have "nearest_int (- x) (- round_half_even x)"
    using round_half_even_nearest[of x] unfolding nearest_int_def by simp
  then show ?thesis
    using nearest_int_unique by metis
qed

lemma float_exponent_bounds:
  assumes "0 < x"
  shows "2 powi float_exponent x \<le> x \<and> x < 2 powi (float_exponent x + 1)"
proof (cases "1 \<le> x")
  case True
  define m where "m = \<lfloor>x\<rfloor>"
  have m: "0 < m" "of_int m \<le> x" "x < of_int m + 1"
    using True unfolding m_def by linarith+
  have b: "1 \<le> bitlen m"
    using m(1) by (simp add: bitlen_alt_def)
  have bb: "2 ^ nat (bitlen m - 1) \<le> m" "m < 2 ^ nat (bitlen m)"
    using bitlen_bounds[OF m(1)] by auto
  have e: "float_exponent x = bitlen m - 1"
    using True by (simp add: float_exponent_def m_def)
  have lo: "(2::real) powi (bitlen m - 1) \<le> of_int m"
  proof -
    have "(2::real) powi (bitlen m - 1) = of_int (2 ^ nat (bitlen m - 1))"
      using b by (simp add: power_int_nonneg_exp)
    also have "\<dots> \<le> of_int m"
      using bb(1) by (simp only: of_int_le_iff)
    finally show ?thesis .
  qed
  have hi: "of_int m + 1 \<le> (2::real) powi (bitlen m)"
  proof -
    have "m + 1 \<le> 2 ^ nat (bitlen m)"
      using bb(2) by linarith
    then have "(of_int (m + 1) :: real) \<le> of_int (2 ^ nat (bitlen m))"
      by (simp only: of_int_le_iff)
    then show ?thesis
      using b by (simp add: power_int_nonneg_exp)
  qed
  show ?thesis
    unfolding e using lo hi m by simp
next
  case False
  define y where "y = 1 / x"
  define m where "m = \<lfloor>y\<rfloor>"
  define k where "k = bitlen m - 1"
  have y: "1 < y" "x = 1 / y" "0 < y"
    using False assms by (simp_all add: y_def)
  have m: "0 < m" "of_int m \<le> y" "y < of_int m + 1"
    using y(1) unfolding m_def by linarith+
  have b: "0 \<le> k"
    using m(1) by (simp add: bitlen_alt_def k_def)
  have bb: "2 ^ nat k \<le> m" "m < 2 ^ nat (k + 1)"
    using bitlen_bounds[OF m(1)] by (auto simp: k_def)
  have lo: "(2::real) powi k \<le> y"
  proof -
    have "(2::real) powi k = of_int (2 ^ nat k)"
      using b by (simp add: power_int_nonneg_exp)
    also have "\<dots> \<le> of_int m"
      using bb(1) by (simp only: of_int_le_iff)
    finally show ?thesis using m(2) by linarith
  qed
  have hi: "y < (2::real) powi (k + 1)"
  proof -
    have "m + 1 \<le> 2 ^ nat (k + 1)"
      using bb(2) by linarith
    then have "(of_int (m + 1) :: real) \<le> of_int (2 ^ nat (k + 1))"
      by (simp only: of_int_le_iff)
    then have "of_int m + 1 \<le> (2::real) powi (k + 1)"
      using b by (simp add: power_int_nonneg_exp)
    then show ?thesis using m(3) by linarith
  qed
  have xlo: "2 powi (- k - 1) < x"
  proof -
    have "1 / 2 powi (k + 1) < 1 / y"
      using hi y(3) by (simp add: frac_less2)
    moreover have "- k - 1 = - (k + 1)"
      by simp
    ultimately show ?thesis
      unfolding y(2) by (simp only: power_int_minus_divide)
  qed
  have xhi: "x \<le> 2 powi (- k)"
  proof -
    have "1 / y \<le> 1 / 2 powi k"
      using lo by (simp add: frac_le)
    then show ?thesis
      unfolding y(2) by (simp add: power_int_minus_divide)
  qed
  have e: "float_exponent x = (if x * 2 powi k = 1 then - k else - k - 1)"
    using False by (simp add: float_exponent_def Let_def k_def m_def y_def)
  show ?thesis
  proof (cases "x * 2 powi k = 1")
    case True
    then have "x = 2 powi (- k)"
      by (simp add: power_int_minus_divide field_simps)
    moreover have "(2::real) powi (- k) < 2 powi (- k + 1)"
      by (intro power_int_strict_increasing) auto
    ultimately show ?thesis
      unfolding e using True by simp
  next
    case ne: False
    then have "x \<noteq> 2 powi (- k)"
      by (simp add: power_int_minus_divide field_simps)
    then have "x < 2 powi (- k)"
      using xhi by linarith
    then show ?thesis
      unfolding e using ne xlo by simp
  qed
qed


lemma rnd_pos_bounds:
  assumes "0 < x"
  shows "2 powi float_exponent x \<le> rnd x \<and> rnd x \<le> 2 powi (float_exponent x + 1)"
proof -
  define e where "e = float_exponent x"
  define u :: real where "u = 2 powi (e - 52)"
  have u: "0 < u"
    by (simp add: u_def)
  have r: "rnd x = of_int (round_half_even (x / u)) * u"
    using assms by (simp add: rnd_def Let_def u_def e_def)
  have lo_u: "2 powi e = 2 ^ 52 * u" and hi_u: "2 powi (e + 1) = 2 ^ 53 * u"
    unfolding u_def by (simp_all add: power_int_diff power_int_add)
  have b: "2 powi e \<le> x" "x < 2 powi (e + 1)"
    using float_exponent_bounds[OF assms] by (simp_all add: e_def)
  have "2 ^ 52 \<le> x / u"
    using b(1) u unfolding lo_u by (simp add: pos_le_divide_eq)
  then have "round_half_even (of_int (2 ^ 52)) \<le> round_half_even (x / u)"
    by (intro round_half_even_mono) simp
  then have lo: "(2 ^ 52 :: real) \<le> of_int (round_half_even (x / u))"
    unfolding round_half_even_of_int by (metis of_int_le_iff of_int_numeral of_int_power)
  have "x / u \<le> 2 ^ 53"
    using b(2) u unfolding hi_u by (simp add: pos_divide_le_eq)
  then have "round_half_even (x / u) \<le> round_half_even (of_int (2 ^ 53))"
    by (intro round_half_even_mono) simp
  then have hi: "of_int (round_half_even (x / u)) \<le> (2 ^ 53 :: real)"
    unfolding round_half_even_of_int by (metis of_int_le_iff of_int_numeral of_int_power)
  show ?thesis
    unfolding e_def[symmetric] r lo_u hi_u using lo hi u by simp
qed

lemma rnd_nonpos:
  assumes "x \<le> 0"
  shows "rnd x \<le> 0"
proof (cases "x = 0")
  case True
  then show ?thesis by (simp add: rnd_def)
next
  case False
  define u :: real where "u = 2 powi (float_exponent \<bar>x\<bar> - 52)"
  have u: "0 < u"
    by (simp add: u_def)
  have "x / u \<le> 0"
    using assms u by (simp add: divide_nonpos_pos)
  then have "round_half_even (x / u) \<le> round_half_even (of_int 0)"
    by (intro round_half_even_mono) simp
  then have "round_half_even (x / u) \<le> 0"
    unfolding round_half_even_of_int .
  then have "of_int (round_half_even (x / u)) * u \<le> 0"
    using u by (simp add: mult_le_0_iff)
  then show ?thesis
    using False by (simp add: rnd_def Let_def u_def)
qed

lemma rnd_0: "rnd 0 = 0"
  by (simp add: rnd_def)

lemma rnd_minus: "rnd (- x) = - rnd x"
  by (simp add: rnd_def Let_def round_half_even_minus)

lemma rnd_le:
  assumes "x \<le> y" and "0 < y"
  shows "rnd x \<le> rnd y"
proof (cases "0 < x")
  case False
  then have "rnd x \<le> 0"
    by (intro rnd_nonpos) simp
  moreover have "0 < rnd y"
    using rnd_pos_bounds[OF assms(2)] zero_less_power_int[of "2::real" "float_exponent y"]
    by linarith
  ultimately show ?thesis by linarith
next
  case True
  define ex where "ex = float_exponent x"
  define ey where "ey = float_exponent y"
  have bx: "2 powi ex \<le> x" "x < 2 powi (ex + 1)"
    using float_exponent_bounds[OF True] by (simp_all add: ex_def)
  have "by": "2 powi ey \<le> y" "y < 2 powi (ey + 1)"
    using float_exponent_bounds[OF assms(2)] by (simp_all add: ey_def)
  have le: "ex \<le> ey"
  proof (rule ccontr)
    assume "\<not> ex \<le> ey"
    then have "ey + 1 \<le> ex" by simp
    then have "(2::real) powi (ey + 1) \<le> 2 powi ex"
      by (intro power_int_increasing) auto
    then show False
      using bx(1) "by"(2) assms(1) by linarith
  qed
  show ?thesis
  proof (cases "ex = ey")
    case True
    define u :: real where "u = 2 powi (ex - 52)"
    have u: "0 < u"
      by (simp add: u_def)
    have "x / u \<le> y / u"
      using assms(1) u by (simp add: divide_right_mono)
    then have "round_half_even (x / u) \<le> round_half_even (y / u)"
      by (rule round_half_even_mono)
    then have "of_int (round_half_even (x / u)) * u \<le> of_int (round_half_even (y / u)) * u"
      using u by simp
    then show ?thesis
      using \<open>0 < x\<close> assms(2) True
      by (simp add: rnd_def Let_def u_def ex_def[symmetric] ey_def[symmetric])
  next
    case False
    then have "ex + 1 \<le> ey"
      using le by simp
    then have "(2::real) powi (ex + 1) \<le> 2 powi ey"
      by (intro power_int_increasing) auto
    moreover have "rnd x \<le> 2 powi (ex + 1)"
      using rnd_pos_bounds[OF True] by (simp add: ex_def)
    moreover have "2 powi ey \<le> rnd y"
      using rnd_pos_bounds[OF assms(2)] by (simp add: ey_def)
    ultimately show ?thesis by linarith
  qed
qed

lemma rnd_mono:
  assumes "x \<le> y"
  shows "rnd x \<le> rnd y"
proof (cases "0 < y")
  case True
  then show ?thesis
    using assms by (intro rnd_le)
next
  case False
  show ?thesis
  proof (cases "x = 0")
    case True
    then show ?thesis
      using assms False by simp
  next
    case ne: False
    have "rnd (- y) \<le> rnd (- x)"
      using assms False ne by (intro rnd_le) auto
    then show ?thesis
      unfolding rnd_minus by simp
  qed
qed

lemma rnd_nearest:
  assumes "x \<noteq> 0"
  shows "\<exists>k. rnd x = of_int k * 2 powi (float_exponent \<bar>x\<bar> - 52)
     \<and> nearest_int (x / 2 powi (float_exponent \<bar>x\<bar> - 52)) k \<and> \<bar>k\<bar> \<le> 2 ^ 53"
proof -
  define u :: real where "u = 2 powi (float_exponent \<bar>x\<bar> - 52)"
  have u: "0 < u"
    by (simp add: u_def)
  have r: "rnd x = of_int (round_half_even (x / u)) * u"
    using assms by (simp add: rnd_def Let_def u_def)
  have a: "rnd \<bar>x\<bar> = \<bar>rnd x\<bar>"
    using rnd_minus[of x] rnd_nonpos[of x] rnd_nonpos[of "- x"]
    by (cases "x \<le> 0") (auto simp: abs_if rnd_minus rnd_0)
  have "rnd \<bar>x\<bar> \<le> 2 powi (float_exponent \<bar>x\<bar> + 1)"
    using rnd_pos_bounds[of "\<bar>x\<bar>"] assms by simp
  also have "\<dots> = 2 ^ 53 * u"
    unfolding u_def by (simp add: power_int_diff power_int_add)
  finally have "\<bar>of_int (round_half_even (x / u)) * u\<bar> \<le> 2 ^ 53 * u"
    unfolding a r .
  then have "\<bar>of_int (round_half_even (x / u)) :: real\<bar> \<le> 2 ^ 53"
    using u by (simp add: abs_mult)
  then have "\<bar>round_half_even (x / u)\<bar> \<le> 2 ^ 53"
    by (metis of_int_abs of_int_le_iff of_int_numeral of_int_power)
  then show ?thesis
    using r round_half_even_nearest[of "x / u"] unfolding u_def by blast
qed

lemma weights_sum: "float_add (float_mul 1 PHONETIC_WEIGHT) (float_mul 1 WORD_SIM_WEIGHT) = 1"
  by code_simp

lemma word_weight_nonneg: "0 \<le> WORD_SIM_WEIGHT"
  by code_simp

lemma weighted_le_1:
  assumes "ws \<le> 1"
  shows "float_add (float_mul 1 PHONETIC_WEIGHT) (float_mul ws WORD_SIM_WEIGHT) \<le> 1"
proof -
  have "ws * WORD_SIM_WEIGHT \<le> 1 * WORD_SIM_WEIGHT"
    using assms word_weight_nonneg by (intro mult_right_mono)
  then have "float_mul ws WORD_SIM_WEIGHT \<le> float_mul 1 WORD_SIM_WEIGHT"
    unfolding float_mul_def by (rule rnd_mono)
  then have "float_mul 1 PHONETIC_WEIGHT + float_mul ws WORD_SIM_WEIGHT
      \<le> float_mul 1 PHONETIC_WEIGHT + float_mul 1 WORD_SIM_WEIGHT"
    by simp
  then have "float_add (float_mul 1 PHONETIC_WEIGHT) (float_mul ws WORD_SIM_WEIGHT)
      \<le> float_add (float_mul 1 PHONETIC_WEIGHT) (float_mul 1 WORD_SIM_WEIGHT)"
    unfolding float_add_def by (rule rnd_mono)
  then show ?thesis
    unfolding weights_sum .
qed


lemma fold_dedup_step:
  "fold dedup_step xs ({}, []) = (set xs, rev (remdups (rev xs)))"
proof (induction xs rule: rev_induct)
  case Nil
  show ?case by simp
next
  case (snoc x xs)
  then show ?case by (auto simp add: dedup_step_def)
qed

lemma rdpo_eq: "remove_duplicates_preserve_order xs = rev (remdups (rev xs))"
  by (simp add: remove_duplicates_preserve_order_def fold_dedup_step)


lemma rdpo_Nil: "remove_duplicates_preserve_order [] = []"
  by (simp add: rdpo_eq)

lemma set_dropWhile_subset: "set (dropWhile P xs) \<subseteq> set xs"
  by (auto dest: set_dropWhileD)

lemma strip_subset: "set (strip s) \<subseteq> set s"
proof -
  have "set (strip s) = set (dropWhile is_space (rev (dropWhile is_space s)))"
    by (simp add: strip_def)
  also have "\<dots> \<subseteq> set (rev (dropWhile is_space s))"
    by (rule set_dropWhile_subset)
  also have "\<dots> = set (dropWhile is_space s)"
    by simp
  also have "\<dots> \<subseteq> set s"
    by (rule set_dropWhile_subset)
  finally show ?thesis .
qed

lemma fold_name_segment_step:
  "fold name_segment_step tokens acc = acc @ concat (map ns_entry tokens)"
  by (induction tokens arbitrary: acc)
     (simp_all add: name_segment_step_def normalize_muhammad_def STANDARD_MUHAMMAD_def ns_entry_def
        Let_def)

lemma variants_long: "t \<in> MUHAMMAD_VARIANTS \<Longrightarrow> 2 \<le> length t"
  by (auto simp: MUHAMMAD_VARIANTS_def)

text \<open>
  Claim C8. A token contributes to the name segments exactly when it is an alias (then the
  canonical form "Muhammad" is taken) or has at least two characters (then the capitalised
  token is taken), and the list is deduplicated; a token of length one is no alias and
  contributes nothing.
\<close>

theorem extract_name_segments_iff: "extract_name_segments tokens =
     remove_duplicates_preserve_order (concat (map ns_entry tokens))
   \<and> (length t = 1 \<longrightarrow> t \<notin> MUHAMMAD_VARIANTS \<and> ns_entry t = [])"
  using variants_long[of t]
  by (auto simp: extract_name_segments_def fold_name_segment_step ns_entry_def)

theorem extract_name_segments_iff_witness:
  "extract_name_segments [''md'', ''k'', ''rowling'', ''md''] = [''Muhammad'', ''Rowling'']
   \<and> ''k'' \<notin> MUHAMMAD_VARIANTS \<and> ns_entry ''k'' = []"
proof -
  have e: "remove_duplicates_preserve_order
      (concat (map ns_entry [''md'', ''k'', ''rowling'', ''md''])) = [''Muhammad'', ''Rowling'']"
    by code_simp
  show ?thesis
    using extract_name_segments_iff[of "[''md'', ''k'', ''rowling'', ''md'']" "''k''"] e by simp
qed

text \<open>
  Claim C5. On the range from 0 to 100 the labels are: "Names Do Not Match" on [0,30],
  "Weak Match" on (30,60], "Slightly Similar" on (60,75], "Somewhat Similar" on (75,88],
  "Highly Similar" on (88,94], "Almost Identical" on (94,100) and "Identical Name" at 100.
\<close>

theorem get_label_bands:
  "(0 \<le> s \<and> s \<le> 30 \<longrightarrow> get_label s = ''Names Do Not Match'') \<and>
   (30 < s \<and> s \<le> 60 \<longrightarrow> get_label s = ''Weak Match'') \<and>
   (60 < s \<and> s \<le> 75 \<longrightarrow> get_label s = ''Slightly Similar'') \<and>
   (75 < s \<and> s \<le> 88 \<longrightarrow> get_label s = ''Somewhat Similar'') \<and>
   (88 < s \<and> s \<le> 94 \<longrightarrow> get_label s = ''Highly Similar'') \<and>
   (94 < s \<and> s < 100 \<longrightarrow> get_label s = ''Almost Identical'') \<and>
   (s = 100 \<longrightarrow> get_label s = ''Identical Name'')"
  by (simp add: get_label_def)

theorem get_label_bands_witness:
  "get_label 0 = ''Names Do Not Match'' \<and> get_label 30 = ''Names Do Not Match'' \<and>
   get_label 60 = ''Weak Match'' \<and> get_label 75 = ''Slightly Similar'' \<and>
   get_label 88 = ''Somewhat Similar'' \<and> get_label 94 = ''Highly Similar'' \<and>
   get_label (199 / 2) = ''Almost Identical'' \<and> get_label 100 = ''Identical Name''"
  using get_label_bands[of 0] get_label_bands[of 30] get_label_bands[of 60] get_label_bands[of 75] get_label_bands[of 88] get_label_bands[of 94] get_label_bands[of "199 / 2"] get_label_bands[of 100]
  by simp

lemma length_make_units: "length (make_units b ns ni) = length ns + length ni"
  by (simp add: make_units_def)

lemma length_target_units:
  "length (target_units dm t) = length (NS (process_name t)) + length (fst (NI (process_name t)))"
  by (simp add: target_units_def Let_def length_make_units encode_segments_def)








lemma lower_no_alpha: "\<not> is_alpha c \<Longrightarrow> \<not> is_alpha (lower_char c)"
  by (auto simp: lower_char_def is_alpha_def is_upper_def is_lower_def Let_def)

lemma space_not_alpha: "\<not> is_alpha (CHR '' '')"
  by (simp add: is_alpha_def is_upper_def is_lower_def)

lemma collapse_no_alpha:
  "\<forall>c\<in>set s. \<not> is_alpha c \<Longrightarrow> \<forall>c\<in>set (collapse_ws b s). \<not> is_alpha c"
  by (induction s arbitrary: b) (auto simp: space_not_alpha)

lemma normalize_no_alpha:
  assumes "\<forall>c\<in>set s. \<not> is_alpha c"
  shows "\<forall>c\<in>set (normalize_text s). \<not> is_alpha c"
proof -
  have "\<forall>c\<in>set (lower s). \<not> is_alpha c"
    using assms by (auto simp: lower_def lower_no_alpha)
  then have "\<forall>c\<in>set (collapse_ws False (lower s)). \<not> is_alpha c"
    by (rule collapse_no_alpha)
  then show ?thesis
    using strip_subset unfolding normalize_text_def by blast
qed

lemma scan_no_alpha: "\<forall>c\<in>set s. \<not> is_alpha c \<Longrightarrow> scan_alpha [] s = []"
  by (induction s) auto

lemma process_no_alpha:
  "\<forall>c\<in>set s. \<not> is_alpha c \<Longrightarrow> process_name s = \<lparr>NS = [], NI = ([], [])\<rparr>"
  by (simp add: process_name_def Let_def extract_alpha_tokens_def scan_no_alpha normalize_no_alpha
      extract_name_segments_def extract_initials_def rdpo_Nil)

lemma round2_0: "round2 0 = 0"
  by (simp add: round2_def round_half_even_def rnd_0)

text \<open>
  Claim C6. When neither name contains a letter, \<open>match\<close> returns the score 0 and no
  matches (and N is 0). Every stage of the model is a total function into plain values: the
  source has no raising path on strings, and the division is guarded by \<open>N > 0\<close>.
\<close>

theorem match_no_letters:
  assumes "\<forall>c\<in>set t. \<not> is_alpha c" and "\<forall>c\<in>set r. \<not> is_alpha c"
  shows "F1 (match jw dm t r) = 0 \<and> Matches (match jw dm t r) = [] \<and> N (match jw dm t r) = 0
     \<and> AllScores (match jw dm t r) = []"
  using assms
  by (simp add: match_def Let_def selected_matches_def target_units_def reference_units_def
      process_no_alpha encode_segments_def make_units_def generate_candidates_def
      solve_greedy_assignment_def sort_candidates_def round2_0)

theorem match_no_letters_witness:
  "F1 (match exact_similarity dm_sample ''12 - 7!'' []) = 0
   \<and> Matches (match exact_similarity dm_sample ''12 - 7!'' []) = []"
proof -
  have a: "\<forall>c\<in>set ''12 - 7!''. \<not> is_alpha c"
    by (simp add: is_alpha_def is_upper_def is_lower_def)
  have b: "\<forall>c\<in>set ([] :: string). \<not> is_alpha c"
    by simp
  show ?thesis
    using match_no_letters[OF a b, of exact_similarity dm_sample] by simp
qed

lemma fold_initials_step:
  "finish_initials (fold initials_step ts (nj, ni, buf)) =
     (nj @ (if buf = [] then map join_run (initial_runs ts)
            else concat (buf @ map upper (takeWhile is_initial ts))
                 # map join_run (initial_runs (dropWhile is_initial ts))),
      ni @ map upper (filter is_initial ts))"
proof (induction ts arbitrary: nj ni buf)
  case Nil
  show ?case by (simp add: finish_initials_def Suc_le_eq)
next
  case (Cons t ts)
  show ?case
  proof (cases "is_initial t")
    case True
    then have step: "initials_step t (nj, ni, buf) = (nj, ni @ [upper t], buf @ [upper t])"
      by (simp add: initials_step_def is_initial_def Let_def)
    show ?thesis
      using True by (simp add: step Cons.IH join_run_def)
  next
    case False
    then have step: "initials_step t (nj, ni, buf) =
        ((if buf = [] then nj else nj @ [concat buf]), ni, [])"
      by (auto simp add: initials_step_def is_initial_def Suc_le_eq)
    show ?thesis
      using False by (simp add: step Cons.IH)
  qed
qed

text \<open>
  Claim C7. The joined initials are the maximal runs of consecutive one-character tokens, each
  run upper-cased and joined, and the individual initials are the upper-cased one-character
  tokens; any other token ends a run; both lists are deduplicated keeping the first
  occurrence of every string in its place (the reverse of \<open>remdups\<close> on the reversed list,
  \<open>remdups\<close> keeping last occurrences).
\<close>

theorem extract_initials_runs:
  "extract_initials tokens =
     (remove_duplicates_preserve_order (map join_run (initial_runs tokens)),
      remove_duplicates_preserve_order (map upper (filter is_initial tokens)))
   \<and> remove_duplicates_preserve_order xs = rev (remdups (rev xs))"
proof -
  have "extract_initials tokens =
      (remove_duplicates_preserve_order (fst (finish_initials (fold initials_step tokens ([], [], [])))),
       remove_duplicates_preserve_order (snd (finish_initials (fold initials_step tokens ([], [], [])))))"
    by (simp add: extract_initials_def finish_initials_def split: prod.splits)
  then show ?thesis
    by (simp add: fold_initials_step rdpo_eq)
qed

theorem extract_initials_runs_witness:
  "extract_initials [''j'', ''k'', ''rowling'', ''j'', ''x''] = ([''JK'', ''JX''], [''J'', ''K'', ''X''])
   \<and> initial_runs [''j'', ''k'', ''rowling'', ''j'', ''x''] = [[''j'', ''k''], [''j'', ''x'']]"
proof -
  have r: "initial_runs [''j'', ''k'', ''rowling'', ''j'', ''x''] = [[''j'', ''k''], [''j'', ''x'']]"
    by code_simp
  have e: "(remove_duplicates_preserve_order
              (map join_run (initial_runs [''j'', ''k'', ''rowling'', ''j'', ''x''])),
            remove_duplicates_preserve_order
              (map upper (filter is_initial [''j'', ''k'', ''rowling'', ''j'', ''x''])))
      = ([''JK'', ''JX''], [''J'', ''K'', ''X''])"
    by code_simp
  have "extract_initials [''j'', ''k'', ''rowling'', ''j'', ''x''] = ([''JK'', ''JX''], [''J'', ''K'', ''X''])"
    using extract_initials_runs[THEN conjunct1, of "[''j'', ''k'', ''rowling'', ''j'', ''x'']"] e by (rule trans)
  with r show ?thesis by (rule conjI[rotated])
qed

lemma assign_step_inv: "assign_inv st \<Longrightarrow> assign_inv (assign_step c st)"
  by (auto simp: assign_inv_def assign_step_def Let_def tid_def rid_def to_match_def)

lemma fold_assign_inv: "assign_inv st \<Longrightarrow> assign_inv (fold assign_step cs st)"
  by (induction cs arbitrary: st) (simp_all add: assign_step_inv)

lemma fold_assign_subseq:
  "\<exists>ds. subseq ds cs \<and> matches (fold assign_step cs st) = matches st @ map to_match ds"
proof (induction cs arbitrary: st)
  case Nil
  show ?case by simp
next
  case (Cons c cs)
  obtain ds where ds: "subseq ds cs"
    "matches (fold assign_step cs (assign_step c st)) = matches (assign_step c st) @ map to_match ds"
    using Cons.IH by blast
  show ?case
  proof (cases "ident (t_seg c) \<notin> taken_target_ids st \<and> ident (r_seg c) \<notin> taken_ref_ids st")
    case True
    then have "matches (assign_step c st) = matches st @ [to_match c]"
      by (simp add: assign_step_def Let_def)
    with ds have "subseq (c # ds) (c # cs) \<and>
        matches (fold assign_step (c # cs) st) = matches st @ map to_match (c # ds)"
      by simp
    then show ?thesis by blast
  next
    case False
    then have "assign_step c st = st"
      by (auto simp add: assign_step_def Let_def)
    with ds have "subseq ds (c # cs) \<and>
        matches (fold assign_step (c # cs) st) = matches st @ map to_match ds"
      by (auto intro: list_emb_Cons)
    then show ?thesis by blast
  qed
qed

lemma fold_assign_all:
  assumes "distinct (map (\<lambda>c. ident (t_seg c)) cs)" "distinct (map (\<lambda>c. ident (r_seg c)) cs)"
    "(\<lambda>c. ident (t_seg c)) ` set cs \<inter> taken_target_ids st = {}"
    "(\<lambda>c. ident (r_seg c)) ` set cs \<inter> taken_ref_ids st = {}"
  shows "matches (fold assign_step cs st) = matches st @ map to_match cs"
  using assms
proof (induction cs arbitrary: st)
  case Nil
  show ?case by simp
next
  case (Cons c cs)
  have step: "assign_step c st = \<lparr>taken_target_ids = insert (ident (t_seg c)) (taken_target_ids st),
         taken_ref_ids = insert (ident (r_seg c)) (taken_ref_ids st),
         matches = matches st @ [to_match c]\<rparr>"
    using Cons.prems by (auto simp add: assign_step_def Let_def)
  have "matches (fold assign_step cs (assign_step c st)) =
      matches (assign_step c st) @ map to_match cs"
    using Cons.prems by (intro Cons.IH) (auto simp: step)
  then show ?case by (simp add: step)
qed

lemma init_inv: "assign_inv \<lparr>taken_target_ids = {}, taken_ref_ids = {}, matches = []\<rparr>"
  by (simp add: assign_inv_def)

lemma distinct_map_sort_key:
  "distinct (map g (sort_key f xs)) = distinct (map g xs)"
  by (simp add: distinct_map)

lemma solve_distinct:
  "distinct (map (\<lambda>m. ident (target_segment m)) (solve_greedy_assignment candidates))
   \<and> distinct (map (\<lambda>m. ident (reference_segment m)) (solve_greedy_assignment candidates))"
proof -
  let ?st0 = "\<lparr>taken_target_ids = {}, taken_ref_ids = {}, matches = []\<rparr>"
  have inv: "assign_inv (fold assign_step (sort_candidates candidates) ?st0)"
    by (rule fold_assign_inv[OF init_inv])
  from inv have "distinct (map tid (solve_greedy_assignment candidates))"
      "distinct (map rid (solve_greedy_assignment candidates))"
    by (simp_all add: assign_inv_def solve_greedy_assignment_def)
  then show ?thesis
    by (simp add: tid_def[abs_def] rid_def[abs_def])
qed

lemma solve_subseq:
  "subseq (solve_greedy_assignment candidates) (map to_match (sort_candidates candidates))"
proof -
  let ?st0 = "\<lparr>taken_target_ids = {}, taken_ref_ids = {}, matches = []\<rparr>"
  obtain ds where ds: "subseq ds (sort_candidates candidates)"
    "matches (fold assign_step (sort_candidates candidates) ?st0) = matches ?st0 @ map to_match ds"
    using fold_assign_subseq by blast
  then show ?thesis
    by (simp add: solve_greedy_assignment_def subseq_map)
qed

lemma solve_all:
  assumes "distinct (map (\<lambda>c. ident (t_seg c)) candidates)"
    and "distinct (map (\<lambda>c. ident (r_seg c)) candidates)"
  shows "solve_greedy_assignment candidates = map to_match (sort_candidates candidates)"
  using assms
    fold_assign_all[of "sort_candidates candidates"
      "\<lparr>taken_target_ids = {}, taken_ref_ids = {}, matches = []\<rparr>"]
  by (simp add: solve_greedy_assignment_def sort_candidates_def distinct_map_sort_key)

text \<open>
  Claim C2. The solver returns candidates of its (sorted) input, in that order, and no
  identity of a target instance and none of a reference instance occurs in two of the
  returned pairings. Identity is the instance, not the text: candidates whose instances are
  pairwise different on both sides are all returned, whatever their texts and codes.
\<close>

theorem assignment_exclusive:
  "distinct (map (\<lambda>m. ident (target_segment m)) (solve_greedy_assignment candidates))
   \<and> distinct (map (\<lambda>m. ident (reference_segment m)) (solve_greedy_assignment candidates))
   \<and> subseq (solve_greedy_assignment candidates) (map to_match (sort_candidates candidates))
   \<and> (distinct (map (\<lambda>c. ident (t_seg c)) candidates) \<and>
      distinct (map (\<lambda>c. ident (r_seg c)) candidates) \<longrightarrow>
      solve_greedy_assignment candidates = map to_match (sort_candidates candidates))"
  using solve_distinct[of candidates] solve_subseq[of candidates] solve_all[of candidates]
  by blast

theorem assignment_exclusive_witness:
  "solve_greedy_assignment
     [sample_candidate 0 2 (1 / 2), sample_candidate 1 3 1, sample_candidate 0 3 (1 / 4)]
   = map to_match [sample_candidate 1 3 1, sample_candidate 0 2 (1 / 2)]
   \<and> solve_greedy_assignment [sample_candidate 0 2 (1 / 2), sample_candidate 1 3 1]
   = map to_match [sample_candidate 1 3 1, sample_candidate 0 2 (1 / 2)]"
proof -
  have d: "distinct (map (\<lambda>c. ident (t_seg c)) [sample_candidate 0 2 (1 / 2), sample_candidate 1 3 1])
    \<and> distinct (map (\<lambda>c. ident (r_seg c)) [sample_candidate 0 2 (1 / 2), sample_candidate 1 3 1])"
    by (simp add: sample_candidate_def sample_unit_def)
  have s: "sort_candidates [sample_candidate 0 2 (1 / 2), sample_candidate 1 3 1]
      = [sample_candidate 1 3 1, sample_candidate 0 2 (1 / 2)]"
    by (simp add: sort_candidates_def sample_candidate_def)
  have a: "solve_greedy_assignment
     [sample_candidate 0 2 (1 / 2), sample_candidate 1 3 1, sample_candidate 0 3 (1 / 4)]
   = map to_match [sample_candidate 1 3 1, sample_candidate 0 2 (1 / 2)]"
    by (simp add: solve_greedy_assignment_def sort_candidates_def sample_candidate_def
        sample_unit_def assign_step_def Let_def)
  show ?thesis
    using assignment_exclusive[of "[sample_candidate 0 2 (1 / 2), sample_candidate 1 3 1]"] d s a by simp
qed

lemma generate_candidates_t_seg:
  "c \<in> set (generate_candidates jw tn rn ts rs) \<Longrightarrow> t_seg c \<in> set ts"
  by (auto simp: generate_candidates_def pair_candidate_def split: prod.splits if_splits)

lemma make_units_ident:
  "u \<in> set (make_units b ns ni) \<Longrightarrow> ident u < b + (length ns + length ni)"
  by (auto simp: make_units_def in_set_enumerate_eq)

lemma solve_subset: "set (solve_greedy_assignment cs) \<subseteq> to_match ` set cs"
proof
  fix m assume "m \<in> set (solve_greedy_assignment cs)"
  with solve_subseq[of cs] obtain y where "y \<in> set (map to_match (sort_candidates cs))" "m = y"
    by (rule list_emb_set)
  then show "m \<in> to_match ` set cs"
    by (simp add: sort_candidates_def)
qed

lemma selected_target_in_units:
  "m \<in> set (selected_matches jw dm t r) \<Longrightarrow> target_segment m \<in> set (target_units dm t)"
proof -
  assume "m \<in> set (selected_matches jw dm t r)"
  then obtain c where c: "m = to_match c"
    "c \<in> set (generate_candidates jw t r (target_units dm t)
            (reference_units dm (length (target_units dm t)) r))"
    using solve_subset by (fastforce simp: selected_matches_def Let_def)
  then show ?thesis
    using generate_candidates_t_seg[OF c(2)] by (simp add: to_match_def)
qed

lemma target_units_ident:
  "u \<in> set (target_units dm t) \<Longrightarrow> ident u < length (target_units dm t)"
  using make_units_ident[of u 0]
  by (simp add: target_units_def Let_def make_units_def)

lemma selected_length: "length (selected_matches jw dm t r) \<le> length (target_units dm t)"
proof -
  let ?ms = "selected_matches jw dm t r"
  let ?ids = "map (\<lambda>m. ident (target_segment m)) ?ms"
  have d: "distinct ?ids"
    using solve_distinct by (simp add: selected_matches_def Let_def)
  have "set ?ids \<subseteq> {..<length (target_units dm t)}"
    using selected_target_in_units target_units_ident by fastforce
  then have "card (set ?ids) \<le> card {..<length (target_units dm t)}"
    by (intro card_mono) auto
  then show ?thesis
    using distinct_card[OF d] by simp
qed

text \<open>
  Claim C10. The accepted pairings of \<open>match\<close> have pairwise different target units, all
  among the N units of the target, so there are at most N of them; the truncation to N
  scores drops nothing, and \<open>AllScores\<close> is the list of all their scaled scores in
  descending order.
\<close>

theorem matches_within_target_units:
  "length (Matches (match jw dm t r)) \<le> N (match jw dm t r)
   \<and> distinct (map (\<lambda>m. ident (target_segment m)) (Matches (match jw dm t r)))
   \<and> set (map target_segment (Matches (match jw dm t r))) \<subseteq> set (target_units dm t)
   \<and> N (match jw dm t r) = length (target_units dm t)
   \<and> AllScores (match jw dm t r) =
       rev (sort (map (\<lambda>m. float_mul (score m) 100) (Matches (match jw dm t r))))"
proof -
  have d: "distinct (map (\<lambda>m. ident (target_segment m)) (selected_matches jw dm t r))"
    using solve_distinct by (simp add: selected_matches_def Let_def)
  have s: "set (map target_segment (selected_matches jw dm t r)) \<subseteq> set (target_units dm t)"
    using selected_target_in_units by auto
  show ?thesis
    using selected_length[of jw dm t r] d s
    by (simp add: match_def Let_def SCORE_MULTIPLIER_def)
qed

theorem matches_within_target_units_witness:
  "length (Matches (match exact_similarity dm_sample ''John Smith'' ''Smith'')) \<le> 2
   \<and> N (match exact_similarity dm_sample ''John Smith'' ''Smith'') = 2
   \<and> AllScores (match exact_similarity dm_sample ''John Smith'' ''Smith'') =
       rev (sort (map (\<lambda>m. float_mul (score m) 100)
         (Matches (match exact_similarity dm_sample ''John Smith'' ''Smith''))))"
proof -
  have p: "process_name ''John Smith'' = \<lparr>NS = [''John'', ''Smith''], NI = ([], [])\<rparr>"
    by code_simp
  have n: "length (target_units dm_sample ''John Smith'') = 2"
    by (simp add: length_target_units p)
  show ?thesis
    using matches_within_target_units[of exact_similarity dm_sample "''John Smith''" "''Smith''"]
    by (simp add: n)
qed

lemma truthy_iff: "truthy x \<longleftrightarrow> x \<noteq> None \<and> x \<noteq> Some []"
  by (cases x) auto

text \<open>
  \<open>normalize_text\<close> on code points above 127: the capital E with acute accent (201) is
  lower-cased to 233, and the no-break space (160) and the next-line control (133) are
  whitespace, collapsed with their neighbours into one space and stripped at the ends.
\<close>

lemma normalize_text_latin1:
  "normalize_text [char_of (201 :: nat), char_of (160 :: nat), char_of (133 :: nat), CHR ''A'',
       char_of (160 :: nat)]
     = [char_of (233 :: nat), CHR '' '', CHR ''a'']"
  by code_simp

lemma calc_best_one:
  assumes "best_combination jw t r = (1, l)"
  shows "calculate_pair_score jw t r tf rf =
    (float_add (float_mul 1 PHONETIC_WEIGHT) (float_mul (word_similarity jw t r tf rf) WORD_SIM_WEIGHT),
     l @ '' (Weighted: 1.0->'' @
       format_4f (float_add (float_mul 1 PHONETIC_WEIGHT)
         (float_mul (word_similarity jw t r tf rf) WORD_SIM_WEIGHT)) @ '')'')"
  unfolding calculate_pair_score_def assms Let_def by simp

lemma word_similarity_cases:
  "word_similarity jw t r tf rf =
     (if tf \<noteq> None \<and> tf \<noteq> Some [] \<and> rf \<noteq> None \<and> rf \<noteq> Some []
      then jw (remove_spaces (normalize_text (the tf))) (remove_spaces (normalize_text (the rf)))
      else jw (lower (original_text t)) (lower (original_text r)))"
  unfolding word_similarity_def truthy_iff Let_def conj_assoc by (rule refl)

text \<open>
  Claim C3, as the code has it. When the best code similarity is exactly 1, the scorer
  returns \<open>1 * 0.85 + literal_similarity * 0.15\<close>, each operation rounded to a double and the
  weights being the doubles nearest to 0.85 and 0.15, and appends that value, to four
  decimal places, to the label. The literal similarity compares the two full names,
  normalised and with their spaces removed, when both are given and neither is the empty
  string; otherwise it compares the lower-cased original texts of the two segments. (The
  guard is \<open>if t_full_name and r_full_name\<close>, which an empty string fails.)
\<close>

theorem pair_score_perfect_match:
  assumes "fst (best_combination jw t r) = 1"
  shows "calculate_pair_score jw t r t_full_name r_full_name =
      (rnd (rnd (1 * rnd (85 / 100))
            + rnd (word_similarity jw t r t_full_name r_full_name * rnd (15 / 100))),
       snd (best_combination jw t r) @ '' (Weighted: 1.0->'' @
         format_4f (rnd (rnd (1 * rnd (85 / 100))
            + rnd (word_similarity jw t r t_full_name r_full_name * rnd (15 / 100))))
         @ '')'')
    \<and> word_similarity jw t r t_full_name r_full_name =
      (if t_full_name \<noteq> None \<and> t_full_name \<noteq> Some [] \<and> r_full_name \<noteq> None \<and> r_full_name \<noteq> Some []
       then jw (remove_spaces (normalize_text (the t_full_name)))
               (remove_spaces (normalize_text (the r_full_name)))
       else jw (lower (original_text t)) (lower (original_text r)))"
proof -
  obtain l where bl: "best_combination jw t r = (1, l)"
    using assms by (cases "best_combination jw t r") auto
  have "calculate_pair_score jw t r t_full_name r_full_name =
      (rnd (rnd (1 * rnd (85 / 100))
            + rnd (word_similarity jw t r t_full_name r_full_name * rnd (15 / 100))),
       snd (best_combination jw t r) @ '' (Weighted: 1.0->'' @
         format_4f (rnd (rnd (1 * rnd (85 / 100))
            + rnd (word_similarity jw t r t_full_name r_full_name * rnd (15 / 100))))
         @ '')'')"
    unfolding calc_best_one[OF bl] float_add_def float_mul_def PHONETIC_WEIGHT_def
      WORD_SIM_WEIGHT_def bl snd_conv by (rule refl)
  then show ?thesis
    using word_similarity_cases by (rule conjI)
qed

lemma best_jon:
  "best_combination exact_similarity (sample_segment ''Jon'' ''JN'') (sample_segment ''Jon'' ''JN'')
   = (1, ''Primary-Primary'')"
  by (simp add: best_combination_def combinations_def combination_step_def sample_segment_def
      exact_similarity_def)

lemma best_catherine:
  "fst (best_combination jw_sample (encode_one dm_sample (0, ''Catherine''))
     (encode_one dm_sample (0, ''Katherine''))) = 1"
  by code_simp

lemma weighted_catherine:
  "(rnd (rnd (1 * rnd (85 / 100))
      + rnd (word_similarity jw_sample (encode_one dm_sample (0, ''Catherine''))
               (encode_one dm_sample (0, ''Katherine''))
               (Some ''Catherine Johnson'') (Some ''Katherine Johnson'') * rnd (15 / 100))),
    snd (best_combination jw_sample (encode_one dm_sample (0, ''Catherine''))
          (encode_one dm_sample (0, ''Katherine''))) @ '' (Weighted: 1.0->'' @
      format_4f (rnd (rnd (1 * rnd (85 / 100))
        + rnd (word_similarity jw_sample (encode_one dm_sample (0, ''Catherine''))
               (encode_one dm_sample (0, ''Katherine''))
               (Some ''Catherine Johnson'') (Some ''Katherine Johnson'') * rnd (15 / 100))))
      @ '')'')
   = (2237726064849715 / 2251799813685248, ''Primary-Primary (Weighted: 1.0->0.9937)'')"
  by code_simp

theorem pair_score_perfect_match_witness:
  "fst (best_combination jw_sample (encode_one dm_sample (0, ''Catherine''))
     (encode_one dm_sample (0, ''Katherine''))) = 1
   \<and> calculate_pair_score jw_sample (encode_one dm_sample (0, ''Catherine''))
        (encode_one dm_sample (0, ''Katherine''))
        (Some ''Catherine Johnson'') (Some ''Katherine Johnson'')
     = (2237726064849715 / 2251799813685248, ''Primary-Primary (Weighted: 1.0->0.9937)'')"
proof -
  have "calculate_pair_score jw_sample (encode_one dm_sample (0, ''Catherine''))
        (encode_one dm_sample (0, ''Katherine''))
        (Some ''Catherine Johnson'') (Some ''Katherine Johnson'')
     = (2237726064849715 / 2251799813685248, ''Primary-Primary (Weighted: 1.0->0.9937)'')"
    unfolding pair_score_perfect_match[OF best_catherine, THEN conjunct1]
    by (rule weighted_catherine)
  with best_catherine show ?thesis
    by (rule conjI)
qed

text \<open>
  The claim as stated, with "supplied" read as "not None", fails for an empty full name:
  both names are supplied, the code compares the segments' texts and returns 1, where the
  comparison of the two normalised names would give the double nearest to 0.85.
\<close>

theorem pair_score_perfect_match_counterexample:
  "fst (best_combination exact_similarity (sample_segment ''Jon'' ''JN'') (sample_segment ''Jon'' ''JN'')) = 1
   \<and> fst (calculate_pair_score exact_similarity (sample_segment ''Jon'' ''JN'')
         (sample_segment ''Jon'' ''JN'') (Some []) (Some ''abc'')) = 1
   \<and> rnd (rnd (1 * rnd (85 / 100))
        + rnd (exact_similarity (remove_spaces (normalize_text []))
                 (remove_spaces (normalize_text ''abc'')) * rnd (15 / 100))) = rnd (85 / 100)
   \<and> rnd (85 / 100) < 1"
  by code_simp

lemma fold_filter_guard:
  assumes "\<And>x st. f x st = (if P x then g x st else st)"
  shows "fold f xs st = fold g (filter P xs) st"
  by (induction xs arbitrary: st) (simp_all add: assms)

text \<open>
  Claim C4, as the code has it. The scorer compares exactly those of the four combinations
  in which both codes are present and non-empty: its guard \<open>if c1 and c2\<close> skips a
  combination when a code is None and also when a code is the empty string. The encoder
  keeps an empty primary code as it is.
\<close>

theorem evaluated_combinations_guard:
  "best_combination jw t r =
     fold (\<lambda>comb st. if jw (the (fst comb)) (the (fst (snd comb))) > fst st
                     then (jw (the (fst comb)) (the (fst (snd comb))), snd (snd comb)) else st)
       (evaluated_combinations t r) (0, ''None'')
   \<and> (comb \<in> set (evaluated_combinations t r) \<longleftrightarrow>
        comb \<in> set (combinations t r) \<and> fst comb \<noteq> None \<and> fst comb \<noteq> Some []
        \<and> fst (snd comb) \<noteq> None \<and> fst (snd comb) \<noteq> Some [])
   \<and> primary_code (encode_one dm (i, s)) = fst (dm s)"
proof -
  have "best_combination jw t r =
     fold (\<lambda>comb st. if jw (the (fst comb)) (the (fst (snd comb))) > fst st
                     then (jw (the (fst comb)) (the (fst (snd comb))), snd (snd comb)) else st)
       (evaluated_combinations t r) (0, ''None'')"
    unfolding best_combination_def evaluated_combinations_def
    by (rule fold_filter_guard) (auto simp: combination_step_def Let_def split: prod.splits)
  then show ?thesis
    by (auto simp: evaluated_combinations_def truthy_iff encode_one_def Let_def)
qed

text \<open>
  The claim as stated fails: with an empty primary code on both sides, no code of the
  Primary-Primary combination is None, and yet the combination is skipped, so that the
  scorer returns \<open>(0.0, "None")\<close>.
\<close>

theorem evaluated_combinations_guard_counterexample:
  "(Some [], Some [], ''Primary-Primary'') \<in> set (combinations (sample_segment ''W'' []) (sample_segment ''W'' []))
   \<and> (Some [], Some [], ''Primary-Primary'') \<notin> set (evaluated_combinations (sample_segment ''W'' []) (sample_segment ''W'' []))
   \<and> primary_code (encode_one dm_sample (0, ''W'')) = []
   \<and> calculate_pair_score exact_similarity (sample_segment ''W'' []) (sample_segment ''W'' []) None None
       = (0, ''None'')"
  by (simp add: combinations_def evaluated_combinations_def sample_segment_def encode_one_def
      dm_sample_def calculate_pair_score_def best_combination_def combination_step_def)

theorem evaluated_combinations_guard_witness:
  "evaluated_combinations (sample_segment ''Jon'' ''JN'') (sample_segment ''W'' []) = []
   \<and> best_combination exact_similarity (sample_segment ''Jon'' ''JN'') (sample_segment ''W'' [])
       = (0, ''None'')
   \<and> primary_code (encode_one dm_sample (0, ''W'')) = []"
proof -
  have e: "evaluated_combinations (sample_segment ''Jon'' ''JN'') (sample_segment ''W'' []) = []"
    by (simp add: evaluated_combinations_def combinations_def sample_segment_def)
  have d: "fst (dm_sample ''W'') = []"
    by (simp add: dm_sample_def)
  show ?thesis
    using evaluated_combinations_guard[of exact_similarity "sample_segment ''Jon'' ''JN''" "sample_segment ''W'' []" _ dm_sample 0 "''W''"]
    by (simp add: e d)
qed


lemma fold_step_le_1:
  assumes "\<And>a b. jw a b \<le> 1"
  shows "fst st \<le> 1 \<Longrightarrow> fst (fold (combination_step jw) cs st) \<le> 1"
proof (induction cs arbitrary: st)
  case Nil
  then show ?case by simp
next
  case (Cons c cs)
  have "fst (combination_step jw c st) \<le> 1"
    using Cons.prems assms by (auto simp: combination_step_def Let_def split: prod.splits)
  then show ?case by (simp add: Cons.IH)
qed

lemma fold_step_keep_1:
  assumes "\<And>a b. jw a b \<le> 1"
  shows "fst st = 1 \<Longrightarrow> fst (fold (combination_step jw) cs st) = 1"
proof (induction cs arbitrary: st)
  case Nil
  then show ?case by simp
next
  case (Cons c cs)
  have "combination_step jw c st = st"
    using Cons.prems assms[of "the (fst c)" "the (fst (snd c))"]
    by (auto simp: combination_step_def Let_def split: prod.splits)
  then show ?case using Cons by simp
qed

lemma best_le_1:
  assumes "\<And>a b. jw a b \<le> 1"
  shows "fst (best_combination jw t r) \<le> 1"
  unfolding best_combination_def by (rule fold_step_le_1[OF assms]) simp

lemma best_eq_1:
  assumes le: "\<And>a b. jw a b \<le> 1" and rf: "\<And>a. a \<noteq> [] \<Longrightarrow> jw a a = 1"
    and eq: "primary_code t = primary_code r" and ne: "primary_code t \<noteq> []"
  shows "fst (best_combination jw t r) = 1"
proof -
  have first: "combination_step jw (Some (primary_code t), Some (primary_code r), ''Primary-Primary'')
      (0, ''None'') = (1, ''Primary-Primary'')"
    using rf[OF ne] eq ne by (simp add: combination_step_def)
  have nl: "\<not> 1 < jw a b" for a b
    using le[of a b] by simp
  have keep: "combination_step jw c (1, l) = (1, l)" for c l
    by (cases c) (simp add: combination_step_def Let_def nl)
  show ?thesis
    unfolding best_combination_def combinations_def by (simp add: first keep)
qed

lemma word_similarity_le_1:
  assumes "\<And>a b. jw a b \<le> 1"
  shows "word_similarity jw t r tf rf \<le> 1"
  unfolding word_similarity_def Let_def using assms by simp

lemma score_cases:
  "calculate_pair_score jw t r tf rf =
     (if fst (best_combination jw t r) = 1
      then (float_add (float_mul 1 PHONETIC_WEIGHT)
              (float_mul (word_similarity jw t r tf rf) WORD_SIM_WEIGHT),
            snd (best_combination jw t r) @ '' (Weighted: 1.0->'' @
              format_4f (float_add (float_mul 1 PHONETIC_WEIGHT)
                (float_mul (word_similarity jw t r tf rf) WORD_SIM_WEIGHT)) @ '')'')
      else best_combination jw t r)"
proof (cases "best_combination jw t r")
  case (Pair b l)
  show ?thesis
    unfolding calculate_pair_score_def Pair Let_def by (cases "b = 1") simp_all
qed

lemma score_le_1:
  assumes "\<And>a b. jw a b \<le> 1"
  shows "fst (calculate_pair_score jw t r tf rf) \<le> 1"
proof (cases "fst (best_combination jw t r) = 1")
  case True
  have "float_add (float_mul 1 PHONETIC_WEIGHT)
      (float_mul (word_similarity jw t r tf rf) WORD_SIM_WEIGHT) \<le> 1"
    using word_similarity_le_1[of jw t r tf rf, OF assms] by (rule weighted_le_1)
  then show ?thesis
    unfolding score_cases using True by simp
next
  case False
  then show ?thesis
    unfolding score_cases using best_le_1[of jw t r, OF assms] by simp
qed

lemma score_eq_1:
  assumes le: "\<And>a b. jw a b \<le> 1" and rf: "\<And>a. a \<noteq> [] \<Longrightarrow> jw a a = 1"
    and eq: "primary_code t = primary_code r" and ne: "primary_code t \<noteq> []"
    and names: "remove_spaces (normalize_text tn) = remove_spaces (normalize_text rn)"
      "remove_spaces (normalize_text tn) \<noteq> []" "tn \<noteq> []" "rn \<noteq> []"
  shows "fst (calculate_pair_score jw t r (Some tn) (Some rn)) = 1"
proof -
  have b: "fst (best_combination jw t r) = 1"
    by (rule best_eq_1[where jw = jw, OF le rf eq ne])
  have "word_similarity jw t r (Some tn) (Some rn) = 1"
    using rf[OF names(2)] names by (simp add: word_similarity_def Let_def)
  then have "float_add (float_mul 1 PHONETIC_WEIGHT)
      (float_mul (word_similarity jw t r (Some tn) (Some rn)) WORD_SIM_WEIGHT) = 1"
    by (simp add: weights_sum)
  then show ?thesis
    unfolding score_cases using b by simp
qed

lemma pair_candidate_cases:
  "pair_candidate jw tn rn t r =
     (if fst (calculate_pair_score jw (segment t) (segment r) (Some tn) (Some rn)) > 0
      then [\<lparr>t_seg = t, r_seg = r,
             cand_score = fst (calculate_pair_score jw (segment t) (segment r) (Some tn) (Some rn)),
             cand_match_type = snd (calculate_pair_score jw (segment t) (segment r) (Some tn) (Some rn))\<rparr>]
      else [])"
  by (cases "calculate_pair_score jw (segment t) (segment r) (Some tn) (Some rn)")
     (simp add: pair_candidate_def)

lemma solve_diagonal:
  assumes ids: "ident u0 \<noteq> ident u1" "ident r0 \<noteq> ident r1"
    and a: "a \<le> 1" and b: "b \<le> 1"
  shows "solve_greedy_assignment
      ([\<lparr>t_seg = u0, r_seg = r0, cand_score = 1, cand_match_type = m0\<rparr>]
       @ (if pa then [\<lparr>t_seg = u0, r_seg = r1, cand_score = a, cand_match_type = ma\<rparr>] else [])
       @ (if pb then [\<lparr>t_seg = u1, r_seg = r0, cand_score = b, cand_match_type = mb\<rparr>] else [])
       @ [\<lparr>t_seg = u1, r_seg = r1, cand_score = 1, cand_match_type = m1\<rparr>])
     = [\<lparr>target_segment = u0, reference_segment = r0, score = 1, match_type = m0\<rparr>,
        \<lparr>target_segment = u1, reference_segment = r1, score = 1, match_type = m1\<rparr>]"
  using assms
  by (auto simp: solve_greedy_assignment_def sort_candidates_def assign_step_def Let_def
      to_match_def)


lemma process_john_smith:
  "process_name ''John Smith'' = \<lparr>NS = [''John'', ''Smith''], NI = ([], [])\<rparr>"
  by code_simp

lemma norm_john_smith: "remove_spaces (normalize_text ''John Smith'') = ''johnsmith''"
  by code_simp

lemma units_john_smith:
  "make_units b (encode_segments dm [''John'', ''Smith'']) (encode_segments dm []) =
     [\<lparr>segment = encode_one dm (0, ''John''), label = ''[NS]'', ident = b\<rparr>,
      \<lparr>segment = encode_one dm (Suc 0, ''Smith''), label = ''[NS]'', ident = Suc b\<rparr>]"
  by (simp add: make_units_def encode_segments_def)

lemma primary_encode_one: "primary_code (encode_one dm (i, s)) = fst (dm s)"
  by (simp add: encode_one_def Let_def)

lemma generate_two_by_two:
  "generate_candidates jw tn rn [u0, u1] [r0, r1] =
     pair_candidate jw tn rn u0 r0 @ pair_candidate jw tn rn u0 r1
     @ pair_candidate jw tn rn u1 r0 @ pair_candidate jw tn rn u1 r1"
  by (simp add: generate_candidates_def)

lemma round2_100: "round2 100 = 100"
  by code_simp

lemma scaled_one: "float_mul 1 100 = 100"
  by code_simp

lemma average_100: "float_div (float_sum [100, 100]) 2 = 100"
  by code_simp

lemma selected_john_smith:
  assumes le: "\<And>a b. jw a b \<le> 1" and rf: "\<And>a. a \<noteq> [] \<Longrightarrow> jw a a = 1"
    and j: "fst (dm ''John'') \<noteq> []" and s: "fst (dm ''Smith'') \<noteq> []"
  shows "map score (selected_matches jw dm ''John Smith'' ''John Smith'') = [1, 1]"
proof -
  define u0 where "u0 = \<lparr>segment = encode_one dm (0, ''John''), label = ''[NS]'', ident = 0\<rparr>"
  define u1 where "u1 = \<lparr>segment = encode_one dm (Suc 0, ''Smith''), label = ''[NS]'', ident = Suc 0\<rparr>"
  define r0 where "r0 = \<lparr>segment = encode_one dm (0, ''John''), label = ''[NS]'', ident = 2\<rparr>"
  define r1 where "r1 = \<lparr>segment = encode_one dm (Suc 0, ''Smith''), label = ''[NS]'', ident = Suc 2\<rparr>"
  define sc :: "labeled_segment \<Rightarrow> labeled_segment \<Rightarrow> real \<times> string"
    where "sc = (\<lambda>t r. calculate_pair_score jw (segment t) (segment r)
      (Some ''John Smith'') (Some ''John Smith''))"
  have tu: "target_units dm ''John Smith'' = [u0, u1]"
    unfolding target_units_def Let_def process_john_smith u0_def u1_def
    by (simp add: units_john_smith)
  have ru: "reference_units dm 2 ''John Smith'' = [r0, r1]"
    unfolding reference_units_def Let_def process_john_smith r0_def r1_def
    by (simp add: units_john_smith)
  have nn: "remove_spaces (normalize_text ''John Smith'') \<noteq> []"
    unfolding norm_john_smith by simp
  have d0: "fst (sc u0 r0) = 1"
    unfolding sc_def
    by (rule score_eq_1[where jw = jw, OF le rf]) (simp_all add: u0_def r0_def primary_encode_one j nn)
  have d1: "fst (sc u1 r1) = 1"
    unfolding sc_def
    by (rule score_eq_1[where jw = jw, OF le rf]) (simp_all add: u1_def r1_def primary_encode_one s nn)
  have a: "fst (sc u0 r1) \<le> 1" and b: "fst (sc u1 r0) \<le> 1"
    unfolding sc_def by (rule score_le_1[where jw = jw, OF le])+
  have ids: "ident u0 \<noteq> ident u1" "ident r0 \<noteq> ident r1"
    by (simp_all add: u0_def u1_def r0_def r1_def)
  have p00: "pair_candidate jw ''John Smith'' ''John Smith'' u0 r0 =
      [\<lparr>t_seg = u0, r_seg = r0, cand_score = 1, cand_match_type = snd (sc u0 r0)\<rparr>]"
    unfolding pair_candidate_cases using d0 by (simp add: sc_def)
  have p11: "pair_candidate jw ''John Smith'' ''John Smith'' u1 r1 =
      [\<lparr>t_seg = u1, r_seg = r1, cand_score = 1, cand_match_type = snd (sc u1 r1)\<rparr>]"
    unfolding pair_candidate_cases using d1 by (simp add: sc_def)
  have p01: "pair_candidate jw ''John Smith'' ''John Smith'' u0 r1 =
      (if fst (sc u0 r1) > 0
       then [\<lparr>t_seg = u0, r_seg = r1, cand_score = fst (sc u0 r1),
               cand_match_type = snd (sc u0 r1)\<rparr>] else [])"
    unfolding pair_candidate_cases sc_def by (rule refl)
  have p10: "pair_candidate jw ''John Smith'' ''John Smith'' u1 r0 =
      (if fst (sc u1 r0) > 0
       then [\<lparr>t_seg = u1, r_seg = r0, cand_score = fst (sc u1 r0),
               cand_match_type = snd (sc u1 r0)\<rparr>] else [])"
    unfolding pair_candidate_cases sc_def by (rule refl)
  have len: "length [u0, u1] = 2"
    by simp
  have sel: "selected_matches jw dm ''John Smith'' ''John Smith'' =
      [\<lparr>target_segment = u0, reference_segment = r0, score = 1, match_type = snd (sc u0 r0)\<rparr>,
       \<lparr>target_segment = u1, reference_segment = r1, score = 1, match_type = snd (sc u1 r1)\<rparr>]"
    unfolding selected_matches_def Let_def tu len ru generate_two_by_two p00 p01 p10 p11
    by (rule solve_diagonal[OF ids a b])
  show ?thesis
    unfolding sel by simp
qed

lemma john_smith_score:
  assumes le: "\<And>a b. jw a b \<le> 1" and rf: "\<And>a. a \<noteq> [] \<Longrightarrow> jw a a = 1"
    and j: "fst (dm ''John'') \<noteq> []" and s: "fst (dm ''Smith'') \<noteq> []"
  shows "F1 (match jw dm ''John Smith'' ''John Smith'') = 100"
proof -
  have n: "length (target_units dm ''John Smith'') = 2"
    by (simp add: length_target_units process_john_smith)
  have ms: "map score (selected_matches jw dm ''John Smith'' ''John Smith'') = [1, 1]"
    by (rule selected_john_smith[where jw = jw and dm = dm, OF le rf j s])
  have "map (\<lambda>m. float_mul (score m) SCORE_MULTIPLIER)
        (selected_matches jw dm ''John Smith'' ''John Smith'')
      = map (\<lambda>x. float_mul x SCORE_MULTIPLIER)
          (map score (selected_matches jw dm ''John Smith'' ''John Smith''))"
    by (simp add: comp_def)
  then have sc: "map (\<lambda>m. float_mul (score m) SCORE_MULTIPLIER)
      (selected_matches jw dm ''John Smith'' ''John Smith'') = [100, 100]"
    unfolding ms by (simp add: SCORE_MULTIPLIER_def scaled_one)
  show ?thesis
    unfolding match_def Let_def n sc
    by (simp add: round2_100 average_100)
qed

text \<open>
  Claim C9. \<open>match("John Smith", "John Smith")\<close> returns the score 100, and \<open>get_label\<close>
  gives that score the label "Identical Name". The two library functions enter through what
  the computation needs of them: the Jaro-Winkler similarity is at most 1 and is 1 on two
  equal non-empty strings, and Double Metaphone gives "John" and "Smith" a non-empty primary
  code. Both units then score 1 against their own copy (the sum of the doubles nearest to
  0.85 and 0.15 rounds to 1), no cross pair scores more than 1 because rounding is
  monotone, the solver pairs each unit with its copy, and the average of the two scaled
  scores is 100.
\<close>

theorem match_john_smith:
  assumes "\<forall>a b. jw a b \<le> 1" and "\<forall>a. a \<noteq> [] \<longrightarrow> jw a a = 1"
    and "fst (dm ''John'') \<noteq> []" and "fst (dm ''Smith'') \<noteq> []"
  shows "F1 (match jw dm ''John Smith'' ''John Smith'') = 100
     \<and> get_label (F1 (match jw dm ''John Smith'' ''John Smith'')) = ''Identical Name''"
proof -
  have "F1 (match jw dm ''John Smith'' ''John Smith'') = 100"
    using assms by (intro john_smith_score) auto
  then show ?thesis
    by (simp add: get_label_def)
qed

theorem match_john_smith_witness:
  "F1 (match exact_similarity dm_sample ''John Smith'' ''John Smith'') = 100
   \<and> get_label (F1 (match exact_similarity dm_sample ''John Smith'' ''John Smith''))
       = ''Identical Name''"
proof -
  have a: "\<forall>a b. exact_similarity a b \<le> 1"
    by (simp add: exact_similarity_def)
  have b: "\<forall>a. a \<noteq> [] \<longrightarrow> exact_similarity a a = 1"
    by (simp add: exact_similarity_def)
  have c: "fst (dm_sample ''John'') \<noteq> []"
    by (simp add: dm_sample_def)
  have d: "fst (dm_sample ''Smith'') \<noteq> []"
    by (simp add: dm_sample_def)
  show ?thesis
    by (rule match_john_smith[OF a b c d])
qed

end
